theory Spec2Isabelle
  imports Main "HOL-Library.AList" "HOL-Library.Sublist" "HOL-Library.Multiset"
begin

section \<open>pubsubc: the provisioning loop of \<^verbatim>\<open>main.go\<close>\<close>

text \<open>
  The program reads the environment variables \<^verbatim>\<open>PUBSUB_PROJECT1\<close>, \<^verbatim>\<open>PUBSUB_PROJECT2\<close>, ...,
  splits each value into a project identifier and topic fields, and calls \<^verbatim>\<open>create\<close>,
  which talks to the Pub/Sub service. The service is not part of the program: it is
  a parameter of the model, and every call the program makes is recorded in a trace.
  Strings are sequences of bytes, as in Go. The lines that \<^verbatim>\<open>debugf\<close> prints with the flag
  \<^verbatim>\<open>-debug\<close> change nothing else and are left out.
\<close>

subsection \<open>The two functions of Go's \<^verbatim>\<open>strings\<close> package that the program uses\<close>

text \<open>
  \<^verbatim>\<open>strings.Split(s, sep)\<close> with a separator of one byte: the pieces of \<open>s\<close> between the
  occurrences of the separator. The result is never empty: a string without the
  separator (the empty string too) gives one piece.
\<close>

fun strings_Split :: "string \<Rightarrow> char \<Rightarrow> string list" where
  "strings_Split [] sep = [[]]"
| "strings_Split (c # cs) sep =
     (if c = sep then [] # strings_Split cs sep
      else (case strings_Split cs sep of
              [] \<Rightarrow> [[c]]
            | p # ps \<Rightarrow> (c # p) # ps))"

text \<open>
  \<^verbatim>\<open>strings.Replace(s, old, new, n)\<close> with \<open>old\<close> and \<open>new\<close> of one byte each and
  \<open>n \<ge> 0\<close>: the first \<open>n\<close> occurrences of \<open>old\<close> are replaced.
\<close>

fun strings_Replace :: "string \<Rightarrow> char \<Rightarrow> char \<Rightarrow> nat \<Rightarrow> string" where
  "strings_Replace [] old new n = []"
| "strings_Replace (c # cs) old new 0 = c # cs"
| "strings_Replace (c # cs) old new (Suc n) =
     (if c = old then new # strings_Replace cs old new n
      else c # strings_Replace cs old new (Suc n))"

subsection \<open>The values passed to the Pub/Sub client\<close>

text \<open>
  A \<^verbatim>\<open>*pubsub.Topic\<close> is the handle the client returns for a topic of its project; it
  stands for the pair of the project and the topic identifier. \<open>topic_String\<close> is the
  handle's \<^verbatim>\<open>String()\<close>, the fully qualified name the client library gives the topic.
\<close>

datatype topic = Topic (topic_project: string) (topic_id: string)

fun topic_String :: "topic \<Rightarrow> string" where
  "topic_String (Topic p t) = ''projects/'' @ p @ ''/topics/'' @ t"

record PushConfig =
  Endpoint :: string

record DeadLetterPolicy =
  DeadLetterTopic :: string
  MaxDeliveryAttempts :: nat

text \<open>
  \<^verbatim>\<open>pubsub.SubscriptionConfig\<close>, with the three fields the program sets. A field the
  program leaves out has Go's zero value: the empty endpoint, the nil pointer.
\<close>

record SubscriptionConfig =
  cfg_Topic :: topic
  cfg_PushConfig :: PushConfig
  cfg_DeadLetterPolicy :: "DeadLetterPolicy option"

definition no_push :: PushConfig where
  "no_push = \<lparr>Endpoint = []\<rparr>"

text \<open>
  The calls the program makes on the service. The first argument is the project of
  the client that makes the call.
\<close>

datatype call =
    NewClient string
  | CreateTopic string string
  | CreateSubscription string string SubscriptionConfig
  | Close string

text \<open>
  The service answers a call with an error message or with success. The answer may
  depend on everything that was called before (a topic that exists already cannot be
  created again), so the service is a function of the trace so far and of the call.
\<close>

type_synonym backend = "call list \<Rightarrow> call \<Rightarrow> string option"

definition invoke :: "backend \<Rightarrow> call \<Rightarrow> call list \<Rightarrow> string option \<times> call list" where
  "invoke b c tr = (b tr c, tr @ [c])"

text \<open>
  The errors of the program, one constructor for each \<^verbatim>\<open>fmt.Errorf\<close> of \<^verbatim>\<open>create\<close> and for
  the \<^verbatim>\<open>fatalf\<close> of \<^verbatim>\<open>main\<close>, with the arguments of the format string in their order
  (the last one is the error of the service).
\<close>

datatype error =
    ClientError string string
  | TopicError string string string
  | DLQTopicError string string string
  | DLQSubscriptionError string string string
  | PushSubscriptionError string string string string string
  | SubscriptionError string string string string
  | ExpectedTopic nat

subsection \<open>\<^verbatim>\<open>create\<close>\<close>

text \<open>
  The body of the loop over the subscriptions of one topic (lines 65 to 120): one
  subscription token is split on \<open>+\<close> and the subscription is created, after its
  dead-letter topic and dead-letter subscription when the token asks for them.
  The result is the error returned (if any) and the trace after the calls.
\<close>

definition create_subscription ::
  "backend \<Rightarrow> string \<Rightarrow> string \<Rightarrow> topic \<Rightarrow> string \<Rightarrow> call list \<Rightarrow> error option \<times> call list" where
  "create_subscription b projectID topicID tp subscription tr =
     (let subscriptionParts = strings_Split subscription CHR ''+'';
          subscriptionID = hd subscriptionParts
      in if length subscriptionParts > 1 then
           (let pushEndpoint = strings_Replace (subscriptionParts ! 1) CHR ''|'' CHR '':'' 1;
                pushConfig = \<lparr>Endpoint = ''http://'' @ pushEndpoint\<rparr>
            in if length subscriptionParts = 3 \<and> subscriptionParts ! 2 = ''dlq'' then
                 (let dlqTopicID = topicID @ ''-dlq'' in
                  case invoke b (CreateTopic projectID dlqTopicID) tr of
                    (Some err, tr1) \<Rightarrow> (Some (DLQTopicError topicID projectID err), tr1)
                  | (None, tr1) \<Rightarrow>
                     (let dlqTopic = Topic projectID dlqTopicID;
                          dlqSubscriptionID = subscriptionID @ ''-dlq''
                      in case invoke b (CreateSubscription projectID dlqSubscriptionID
                                \<lparr>cfg_Topic = dlqTopic,
                                 cfg_PushConfig = \<lparr>Endpoint = ''http://'' @ pushEndpoint @ ''/dead''\<rparr>,
                                 cfg_DeadLetterPolicy = None\<rparr>) tr1 of
                           (Some err, tr2) \<Rightarrow>
                             (Some (DLQSubscriptionError dlqTopicID projectID err), tr2)
                         | (None, tr2) \<Rightarrow>
                            (case invoke b (CreateSubscription projectID subscriptionID
                                \<lparr>cfg_Topic = tp,
                                 cfg_PushConfig = pushConfig,
                                 cfg_DeadLetterPolicy =
                                   Some \<lparr>DeadLetterTopic = topic_String dlqTopic,
                                         MaxDeliveryAttempts = 5\<rparr>\<rparr>) tr2 of
                               (Some err, tr3) \<Rightarrow>
                                 (Some (PushSubscriptionError subscriptionID topicID projectID
                                          pushEndpoint err), tr3)
                             | (None, tr3) \<Rightarrow> (None, tr3))))
               else
                 (case invoke b (CreateSubscription projectID subscriptionID
                          \<lparr>cfg_Topic = tp, cfg_PushConfig = pushConfig,
                           cfg_DeadLetterPolicy = None\<rparr>) tr of
                    (Some err, tr1) \<Rightarrow>
                      (Some (PushSubscriptionError subscriptionID topicID projectID
                               pushEndpoint err), tr1)
                  | (None, tr1) \<Rightarrow> (None, tr1)))
         else
           (case invoke b (CreateSubscription projectID subscriptionID
                    \<lparr>cfg_Topic = tp, cfg_PushConfig = no_push, cfg_DeadLetterPolicy = None\<rparr>) tr of
              (Some err, tr1) \<Rightarrow> (Some (SubscriptionError subscriptionID topicID projectID err), tr1)
            | (None, tr1) \<Rightarrow> (None, tr1)))"

text \<open>The loop over the subscriptions of one topic (line 64): front to back, until an error.\<close>

fun create_subscriptions ::
  "backend \<Rightarrow> string \<Rightarrow> string \<Rightarrow> topic \<Rightarrow> string list \<Rightarrow> call list \<Rightarrow> error option \<times> call list" where
  "create_subscriptions b projectID topicID tp [] tr = (None, tr)"
| "create_subscriptions b projectID topicID tp (subscription # rest) tr =
     (case create_subscription b projectID topicID tp subscription tr of
        (Some e, tr') \<Rightarrow> (Some e, tr')
      | (None, tr') \<Rightarrow> create_subscriptions b projectID topicID tp rest tr')"

text \<open>
  The loop over the topics (line 57). \<^verbatim>\<open>Topics\<close> is a Go map, and \<^verbatim>\<open>range\<close> visits the
  entries of a map in an order the language leaves open. The argument of the loop is
  the list of the entries in the order \<^verbatim>\<open>range\<close> visits them.
\<close>

type_synonym Topics = "(string \<times> string list) list"

fun create_topics ::
  "backend \<Rightarrow> string \<Rightarrow> Topics \<Rightarrow> call list \<Rightarrow> error option \<times> call list" where
  "create_topics b projectID [] tr = (None, tr)"
| "create_topics b projectID ((topicID, subscriptions) # rest) tr =
     (case invoke b (CreateTopic projectID topicID) tr of
        (Some err, tr1) \<Rightarrow> (Some (TopicError topicID projectID err), tr1)
      | (None, tr1) \<Rightarrow>
         (case create_subscriptions b projectID topicID (Topic projectID topicID)
                 subscriptions tr1 of
            (Some e, tr2) \<Rightarrow> (Some e, tr2)
          | (None, tr2) \<Rightarrow> create_topics b projectID rest tr2))"

text \<open>
  \<^verbatim>\<open>create\<close>: the client is made; when that fails nothing else is called. Otherwise the
  deferred \<^verbatim>\<open>client.Close()\<close> runs when the function returns, with or without an error
  (what \<^verbatim>\<open>Close\<close> answers is dropped by the program).
\<close>

definition create :: "backend \<Rightarrow> string \<Rightarrow> Topics \<Rightarrow> call list \<Rightarrow> error option \<times> call list" where
  "create b projectID topics tr =
     (case invoke b (NewClient projectID) tr of
        (Some err, tr1) \<Rightarrow> (Some (ClientError projectID err), tr1)
      | (None, tr1) \<Rightarrow>
         (case create_topics b projectID topics tr1 of
            (r, tr2) \<Rightarrow> (r, snd (invoke b (Close projectID) tr2))))"

subsection \<open>\<^verbatim>\<open>main\<close>\<close>

text \<open>
  Lines 166 to 170: the map from topic identifiers to subscription tokens. The map is
  an association list with one entry for each key; \<^verbatim>\<open>topics[k] = v\<close> is \<open>AList.update\<close>,
  which replaces the value of a key that is there already.
\<close>

fun parse_topics :: "string list \<Rightarrow> Topics \<Rightarrow> Topics" where
  "parse_topics [] topics = topics"
| "parse_topics (part # rest) topics =
     (let topicParts = strings_Split part CHR '':''
      in parse_topics rest (AList.update (hd topicParts) (tl topicParts) topics))"

text \<open>
  What the process leaves behind: its exit status, whether the usage text was printed,
  the error \<^verbatim>\<open>fatalf\<close> printed (if any), and the calls made on the service.
\<close>

record outcome =
  status :: nat
  usage :: bool
  reported :: "error option"
  calls :: "call list"

text \<open>
  The loop of \<^verbatim>\<open>main\<close> (lines 145 to 176), from the index \<open>i\<close> on. \<open>env i\<close> is what
  \<^verbatim>\<open>os.Getenv\<close> gives for \<^verbatim>\<open>PUBSUB_PROJECT<i>\<close>: the empty string when the variable is not
  set. \<open>order i\<close> is the order in which \<^verbatim>\<open>range\<close> visits the map of the \<open>i\<close>-th project.
  The loop has no bound, so the function is partial: \<open>None\<close> is a run that never ends
  (every variable set and every pass without an error). The index is a natural number:
  the names \<^verbatim>\<open>PUBSUB_PROJECT<i>\<close> are different for different \<open>i\<close>, and an environment has
  finitely many variables, so the loop ends long before an \<^verbatim>\<open>int\<close> would wrap around.
  \<^verbatim>\<open>fatalf\<close> and \<^verbatim>\<open>os.Exit\<close> end the process: nothing follows them.
\<close>

partial_function (option) main_loop ::
  "backend \<Rightarrow> (nat \<Rightarrow> Topics \<Rightarrow> Topics) \<Rightarrow> (nat \<Rightarrow> string) \<Rightarrow> nat \<Rightarrow> call list \<Rightarrow> outcome option" where
  "main_loop b order env i tr =
     (if env i = [] then
        (if i = 1 then Some \<lparr>status = 1, usage = True, reported = None, calls = tr\<rparr>
         else Some \<lparr>status = 0, usage = False, reported = None, calls = tr\<rparr>)
      else
        (let parts = strings_Split (env i) CHR '','' in
         if length parts < 2 then
           Some \<lparr>status = 1, usage = False, reported = Some (ExpectedTopic i), calls = tr\<rparr>
         else
           (case create b (hd parts) (order i (parse_topics (tl parts) [])) tr of
              (Some e, tr') \<Rightarrow> Some \<lparr>status = 1, usage = False, reported = Some e, calls = tr'\<rparr>
            | (None, tr') \<Rightarrow> main_loop b order env (i + 1) tr')))"

declare main_loop.simps [code]

text \<open>
  \<^verbatim>\<open>main\<close> when neither \<^verbatim>\<open>-help\<close> nor \<^verbatim>\<open>-version\<close> is given (with one of them \<^verbatim>\<open>main\<close> prints
  a text and returns before the loop): the loop from index 1, nothing called yet.
\<close>

definition main :: "backend \<Rightarrow> (nat \<Rightarrow> Topics \<Rightarrow> Topics) \<Rightarrow> (nat \<Rightarrow> string) \<Rightarrow> outcome option" where
  "main b order env = main_loop b order env 1 []"

section \<open>Notions used to state the properties\<close>

text \<open>
  \<open>all_succeed b tr cs\<close>: the calls \<open>cs\<close>, made one after the other from the trace \<open>tr\<close>,
  are all answered without an error by the service \<open>b\<close>.
\<close>

fun all_succeed :: "backend \<Rightarrow> call list \<Rightarrow> call list \<Rightarrow> bool" where
  "all_succeed b tr [] = True"
| "all_succeed b tr (c # cs) = (b tr c = None \<and> all_succeed b (tr @ [c]) cs)"

text \<open>The error of the service that an error of the program wraps.\<close>

fun cause :: "error \<Rightarrow> string option" where
  "cause (ClientError p err) = Some err"
| "cause (TopicError t p err) = Some err"
| "cause (DLQTopicError t p err) = Some err"
| "cause (DLQSubscriptionError t p err) = Some err"
| "cause (PushSubscriptionError s t p e err) = Some err"
| "cause (SubscriptionError s t p err) = Some err"
| "cause (ExpectedTopic i) = None"

text \<open>
  \<open>first_error_stops b tr cs r\<close>: the calls \<open>cs\<close> made from the trace \<open>tr\<close> and the result
  \<open>r\<close> fit together. Without an error returned, every call succeeded. With an error
  returned, every call but the last succeeded, the last call failed, the error returned
  wraps the error of that call, and no call follows it.
\<close>

definition first_error_stops :: "backend \<Rightarrow> call list \<Rightarrow> call list \<Rightarrow> error option \<Rightarrow> bool" where
  "first_error_stops b tr cs r =
     (case r of
        None \<Rightarrow> all_succeed b tr cs
      | Some e \<Rightarrow> cs \<noteq> [] \<and> all_succeed b tr (butlast cs)
                  \<and> b (tr @ butlast cs) (last cs) \<noteq> None
                  \<and> cause e = b (tr @ butlast cs) (last cs))"

text \<open>The calls that create a resource.\<close>

fun is_creation :: "call \<Rightarrow> bool" where
  "is_creation (CreateTopic p t) = True"
| "is_creation (CreateSubscription p s cfg) = True"
| "is_creation (NewClient p) = False"
| "is_creation (Close p) = False"

text \<open>
  The identifiers of the subscriptions that a list of calls creates on the topic \<open>tp\<close>,
  in the order of the calls.
\<close>

fun subscriptions_on :: "topic \<Rightarrow> call list \<Rightarrow> string list" where
  "subscriptions_on tp [] = []"
| "subscriptions_on tp (CreateSubscription p sid cfg # cs) =
     (if cfg_Topic cfg = tp then sid # subscriptions_on tp cs else subscriptions_on tp cs)"
| "subscriptions_on tp (NewClient p # cs) = subscriptions_on tp cs"
| "subscriptions_on tp (CreateTopic p t # cs) = subscriptions_on tp cs"
| "subscriptions_on tp (Close p # cs) = subscriptions_on tp cs"

text \<open>
  The first \<open>n\<close> rounds of the loop of \<^verbatim>\<open>main\<close> from the index \<open>i\<close>, for variables that
  are set: the projects of \<^verbatim>\<open>PUBSUB_PROJECT<i>\<close>, ..., one after the other in increasing
  order, until one of them ends with an error. The result is that error (if any) and
  the trace. It is used to say which projects a run has processed.
\<close>

fun rounds ::
  "backend \<Rightarrow> (nat \<Rightarrow> Topics \<Rightarrow> Topics) \<Rightarrow> (nat \<Rightarrow> string) \<Rightarrow> nat \<Rightarrow> nat \<Rightarrow> call list
     \<Rightarrow> error option \<times> call list" where
  "rounds b order env i 0 tr = (None, tr)"
| "rounds b order env i (Suc n) tr =
     (let parts = strings_Split (env i) CHR '','' in
      if length parts < 2 then (Some (ExpectedTopic i), tr)
      else (case create b (hd parts) (order i (parse_topics (tl parts) [])) tr of
              (Some e, tr') \<Rightarrow> (Some e, tr')
            | (None, tr') \<Rightarrow> rounds b order env (Suc i) n tr'))"

section \<open>Properties\<close>

subsection \<open>Splitting and replacing\<close>

lemma strings_Split_not_Nil: "strings_Split s sep \<noteq> []"
  by (induction s) (auto split: list.splits)

lemma strings_Split_length: "length (strings_Split s sep) = Suc (count_list s sep)"
  by (induction s) (auto split: list.splits simp: strings_Split_not_Nil)

lemma strings_Split_one: "length (strings_Split s sep) < 2 \<longleftrightarrow> sep \<notin> set s"
  by (simp add: strings_Split_length count_list_0_iff)

lemma strings_Replace_0: "strings_Replace s old new 0 = s"
  by (cases s) simp_all

lemma strings_Replace_first:
  "old \<notin> set xs \<Longrightarrow> strings_Replace (xs @ old # ys) old new (Suc 0) = xs @ new # ys"
  by (induction xs) (auto simp: strings_Replace_0)

lemma strings_Replace_absent:
  "old \<notin> set s \<Longrightarrow> strings_Replace s old new n = s"
  by (induction s old new n rule: strings_Replace.induct) auto

subsection \<open>One subscription token\<close>

text \<open>
  C6. A token is split on \<open>+\<close> and handled by the number of its segments. One segment:
  one call, which creates the subscription \<open>sid\<close> on the topic with the zero push
  configuration and no dead-letter policy. Two segments \<open>sid\<close> and \<open>ep\<close>: one call, which
  creates the subscription \<open>sid\<close> on the topic with the endpoint \<open>http://\<close> followed by
  \<open>ep\<close> in which the first \<open>|\<close> is replaced by \<open>:\<close>. The replacement touches the first
  \<open>|\<close> only: what follows it is kept as it is, and a segment without \<open>|\<close> is unchanged.
  In both cases the error returned is the error of that call, if the service gives one.
\<close>

theorem C6_token_dispatch:
  "(strings_Split subscription CHR ''+'' = [sid] \<longrightarrow>
      create_subscription b p t tp subscription tr =
        (map_option (SubscriptionError sid t p)
           (b tr (CreateSubscription p sid
              \<lparr>cfg_Topic = tp, cfg_PushConfig = \<lparr>Endpoint = []\<rparr>, cfg_DeadLetterPolicy = None\<rparr>)),
         tr @ [CreateSubscription p sid
              \<lparr>cfg_Topic = tp, cfg_PushConfig = \<lparr>Endpoint = []\<rparr>, cfg_DeadLetterPolicy = None\<rparr>]))
   \<and> (strings_Split subscription CHR ''+'' = [sid, ep] \<longrightarrow>
      create_subscription b p t tp subscription tr =
        (map_option (PushSubscriptionError sid t p (strings_Replace ep CHR ''|'' CHR '':'' 1))
           (b tr (CreateSubscription p sid
              \<lparr>cfg_Topic = tp,
               cfg_PushConfig = \<lparr>Endpoint = ''http://'' @ strings_Replace ep CHR ''|'' CHR '':'' 1\<rparr>,
               cfg_DeadLetterPolicy = None\<rparr>)),
         tr @ [CreateSubscription p sid
              \<lparr>cfg_Topic = tp,
               cfg_PushConfig = \<lparr>Endpoint = ''http://'' @ strings_Replace ep CHR ''|'' CHR '':'' 1\<rparr>,
               cfg_DeadLetterPolicy = None\<rparr>]))
   \<and> (CHR ''|'' \<notin> set host \<longrightarrow>
        strings_Replace (host @ CHR ''|'' # port) CHR ''|'' CHR '':'' 1 = host @ CHR '':'' # port
      \<and> strings_Replace host CHR ''|'' CHR '':'' 1 = host)"
  by (auto simp: create_subscription_def invoke_def no_push_def Let_def
        strings_Replace_first strings_Replace_absent split: option.splits)

theorem C6_token_dispatch_witness:
  "create_subscription (\<lambda>tr c. None) ''proj1'' ''topicA'' (Topic ''proj1'' ''topicA'') ''sub1'' [] =
     (None, [CreateSubscription ''proj1'' ''sub1''
        \<lparr>cfg_Topic = Topic ''proj1'' ''topicA'', cfg_PushConfig = \<lparr>Endpoint = []\<rparr>,
         cfg_DeadLetterPolicy = None\<rparr>])
   \<and> create_subscription (\<lambda>tr c. None) ''proj1'' ''topicA'' (Topic ''proj1'' ''topicA'')
        ''sub1+host1|8080'' [] =
     (None, [CreateSubscription ''proj1'' ''sub1''
        \<lparr>cfg_Topic = Topic ''proj1'' ''topicA'', cfg_PushConfig = \<lparr>Endpoint = ''http://host1:8080''\<rparr>,
         cfg_DeadLetterPolicy = None\<rparr>])
   \<and> strings_Replace ''a|b|c'' CHR ''|'' CHR '':'' 1 = ''a:b|c''"
  using C6_token_dispatch [of "''sub1''" "''sub1''" "\<lambda>tr c. None" "''proj1''" "''topicA''"
      "Topic ''proj1'' ''topicA''" "[]" "''host1|8080''" "''a''" "''b|c''"]
    C6_token_dispatch [of "''sub1+host1|8080''" "''sub1''" "\<lambda>tr c. None" "''proj1''" "''topicA''"
      "Topic ''proj1'' ''topicA''" "[]" "''host1|8080''" "''a''" "''b|c''"]
  by (simp add: strings_Replace_0)

text \<open>
  C2. A token of exactly three segments \<open>sid\<close>, \<open>ep\<close> and \<open>dlq\<close>, under the topic \<open>t\<close> of
  the project \<open>p\<close>. With \<open>endpoint\<close> for \<open>ep\<close> after the replacement of its first \<open>|\<close>,
  the calls are, in this order: the creation of the topic \<open>t-dlq\<close>; the creation of the
  subscription \<open>sid-dlq\<close> on that topic with the endpoint \<open>http://endpoint/dead\<close>; the
  creation of the subscription \<open>sid\<close> on the topic \<open>t\<close> with the endpoint
  \<open>http://endpoint\<close> and a dead-letter policy that names the topic \<open>t-dlq\<close> by its fully
  qualified name, with 5 delivery attempts at most. Each call is made only when the
  calls before it succeeded, so the primary subscription is never created before the
  two dead-letter resources; when the service answers no error, all three are made.
\<close>

theorem C2_dead_letter_chain:
  assumes "strings_Split subscription CHR ''+'' = [sid, ep, ''dlq'']"
  shows "create_subscription b p t (Topic p t) subscription tr =
    (let endpoint = strings_Replace ep CHR ''|'' CHR '':'' 1;
         dlq_topic = CreateTopic p (t @ ''-dlq'');
         dlq_subscription = CreateSubscription p (sid @ ''-dlq'')
           \<lparr>cfg_Topic = Topic p (t @ ''-dlq''),
            cfg_PushConfig = \<lparr>Endpoint = ''http://'' @ endpoint @ ''/dead''\<rparr>,
            cfg_DeadLetterPolicy = None\<rparr>;
         primary = CreateSubscription p sid
           \<lparr>cfg_Topic = Topic p t,
            cfg_PushConfig = \<lparr>Endpoint = ''http://'' @ endpoint\<rparr>,
            cfg_DeadLetterPolicy =
              Some \<lparr>DeadLetterTopic = topic_String (Topic p (t @ ''-dlq'')),
                    MaxDeliveryAttempts = 5\<rparr>\<rparr>
     in case b tr dlq_topic of
          Some err \<Rightarrow> (Some (DLQTopicError t p err), tr @ [dlq_topic])
        | None \<Rightarrow>
           (case b (tr @ [dlq_topic]) dlq_subscription of
              Some err \<Rightarrow>
                (Some (DLQSubscriptionError (t @ ''-dlq'') p err), tr @ [dlq_topic, dlq_subscription])
            | None \<Rightarrow>
                (map_option (PushSubscriptionError sid t p endpoint)
                   (b (tr @ [dlq_topic, dlq_subscription]) primary),
                 tr @ [dlq_topic, dlq_subscription, primary])))"
  using assms
  by (simp add: create_subscription_def invoke_def Let_def split: option.splits)

theorem C2_dead_letter_chain_witness:
  "create_subscription (\<lambda>tr c. None) ''proj1'' ''topicA'' (Topic ''proj1'' ''topicA'')
      ''sub1+host1|8080+dlq'' [] =
   (None,
    [CreateTopic ''proj1'' ''topicA-dlq'',
     CreateSubscription ''proj1'' ''sub1-dlq''
       \<lparr>cfg_Topic = Topic ''proj1'' ''topicA-dlq'',
        cfg_PushConfig = \<lparr>Endpoint = ''http://host1:8080/dead''\<rparr>,
        cfg_DeadLetterPolicy = None\<rparr>,
     CreateSubscription ''proj1'' ''sub1''
       \<lparr>cfg_Topic = Topic ''proj1'' ''topicA'',
        cfg_PushConfig = \<lparr>Endpoint = ''http://host1:8080''\<rparr>,
        cfg_DeadLetterPolicy =
          Some \<lparr>DeadLetterTopic = ''projects/proj1/topics/topicA-dlq'',
                MaxDeliveryAttempts = 5\<rparr>\<rparr>])"
  using C2_dead_letter_chain [of "''sub1+host1|8080+dlq''" "''sub1''" "''host1|8080''"
      "\<lambda>tr c. None" "''proj1''" "''topicA''" "[]"]
  by (simp add: strings_Replace_0)

text \<open>
  C3. The claim is that a token of three segments whose third segment is not \<open>dlq\<close> is
  refused. The program has no such check: the token \<open>s+h|80+dlx\<close> has the three segments
  \<open>s\<close>, \<open>h|80\<close> and \<open>dlx\<close>, and with a service that accepts every call the program returns
  no error and creates the push subscription \<open>s\<close>.
\<close>

theorem C3_third_segment_counterexample:
  "strings_Split ''s+h|80+dlx'' CHR ''+'' = [''s'', ''h|80'', ''dlx'']
   \<and> create_subscription (\<lambda>tr c. None) ''p'' ''t'' (Topic ''p'' ''t'') ''s+h|80+dlx'' [] =
     (None, [CreateSubscription ''p'' ''s''
        \<lparr>cfg_Topic = Topic ''p'' ''t'', cfg_PushConfig = \<lparr>Endpoint = ''http://h:80''\<rparr>,
         cfg_DeadLetterPolicy = None\<rparr>])"
  by (simp add: create_subscription_def invoke_def strings_Replace_0)

text \<open>
  C3, as amended. A token of three segments whose third segment is not \<open>dlq\<close> is handled
  as a push subscription: one call, which creates the subscription of the first segment
  with the endpoint of the second and no dead-letter policy. The third segment is not
  looked at any further, and the only error there can be is the error of that call.
\<close>

theorem C3_third_segment_ignored:
  assumes "strings_Split subscription CHR ''+'' = [sid, ep, third]" and "third \<noteq> ''dlq''"
  shows "create_subscription b p t tp subscription tr =
    (map_option (PushSubscriptionError sid t p (strings_Replace ep CHR ''|'' CHR '':'' 1))
       (b tr (CreateSubscription p sid
          \<lparr>cfg_Topic = tp,
           cfg_PushConfig = \<lparr>Endpoint = ''http://'' @ strings_Replace ep CHR ''|'' CHR '':'' 1\<rparr>,
           cfg_DeadLetterPolicy = None\<rparr>)),
     tr @ [CreateSubscription p sid
          \<lparr>cfg_Topic = tp,
           cfg_PushConfig = \<lparr>Endpoint = ''http://'' @ strings_Replace ep CHR ''|'' CHR '':'' 1\<rparr>,
           cfg_DeadLetterPolicy = None\<rparr>])"
  using assms
  by (simp add: create_subscription_def invoke_def Let_def split: option.splits)

theorem C3_third_segment_ignored_witness:
  "create_subscription (\<lambda>tr c. None) ''p'' ''t'' (Topic ''p'' ''t'') ''s+h+x'' [] =
     (None, [CreateSubscription ''p'' ''s''
        \<lparr>cfg_Topic = Topic ''p'' ''t'', cfg_PushConfig = \<lparr>Endpoint = ''http://h''\<rparr>,
         cfg_DeadLetterPolicy = None\<rparr>])"
  using C3_third_segment_ignored [of "''s+h+x''" "''s''" "''h''" "''x''" "\<lambda>tr c. None" "''p''" "''t''"
      "Topic ''p'' ''t''" "[]"]
  by (simp add: strings_Replace_0)

text \<open>
  C10. A token of four or more segments is handled as a push subscription whose endpoint
  comes from the second segment: one call, no dead-letter topic, no dead-letter
  subscription, no dead-letter policy, and no error but that of the call. This holds
  whatever the third segment is, \<open>dlq\<close> too: the dead-letter branch needs exactly three
  segments.
\<close>

theorem C10_four_or_more_segments:
  assumes "strings_Split subscription CHR ''+'' = sid # ep # third # fourth # others"
  shows "create_subscription b p t tp subscription tr =
    (map_option (PushSubscriptionError sid t p (strings_Replace ep CHR ''|'' CHR '':'' 1))
       (b tr (CreateSubscription p sid
          \<lparr>cfg_Topic = tp,
           cfg_PushConfig = \<lparr>Endpoint = ''http://'' @ strings_Replace ep CHR ''|'' CHR '':'' 1\<rparr>,
           cfg_DeadLetterPolicy = None\<rparr>)),
     tr @ [CreateSubscription p sid
          \<lparr>cfg_Topic = tp,
           cfg_PushConfig = \<lparr>Endpoint = ''http://'' @ strings_Replace ep CHR ''|'' CHR '':'' 1\<rparr>,
           cfg_DeadLetterPolicy = None\<rparr>])"
  using assms
  by (simp add: create_subscription_def invoke_def Let_def split: option.splits)

theorem C10_four_or_more_segments_witness:
  "create_subscription (\<lambda>tr c. None) ''p'' ''t'' (Topic ''p'' ''t'') ''s+h|80+dlq+extra'' [] =
     (None, [CreateSubscription ''p'' ''s''
        \<lparr>cfg_Topic = Topic ''p'' ''t'', cfg_PushConfig = \<lparr>Endpoint = ''http://h:80''\<rparr>,
         cfg_DeadLetterPolicy = None\<rparr>])"
  using C10_four_or_more_segments [of "''s+h|80+dlq+extra''" "''s''" "''h|80''" "''dlq''" "''extra''" "[]"
      "\<lambda>tr c. None" "''p''" "''t''" "Topic ''p'' ''t''" "[]"]
  by (simp add: strings_Replace_0)

subsection \<open>One pass over a project\<close>

lemma all_succeed_append:
  "all_succeed b tr (cs @ ds) = (all_succeed b tr cs \<and> all_succeed b (tr @ cs) ds)"
  by (induction cs arbitrary: tr) auto

lemma first_error_stops_append:
  assumes "all_succeed b tr cs" and "first_error_stops b (tr @ cs) ds r"
  shows "first_error_stops b tr (cs @ ds) r"
proof (cases r)
  case None
  with assms show ?thesis by (simp add: first_error_stops_def all_succeed_append)
next
  case (Some e)
  with assms have "ds \<noteq> []" by (simp add: first_error_stops_def)
  then have "butlast (cs @ ds) = cs @ butlast ds" "last (cs @ ds) = last ds"
    by (simp_all add: butlast_append)
  with assms Some show ?thesis
    by (simp add: first_error_stops_def all_succeed_append)
qed

lemma create_subscription_plain:
  assumes "\<not> length (strings_Split s CHR ''+'') > 1"
  shows "create_subscription b p t tp s tr =
    (map_option (SubscriptionError (hd (strings_Split s CHR ''+'')) t p)
       (b tr (CreateSubscription p (hd (strings_Split s CHR ''+''))
          \<lparr>cfg_Topic = tp, cfg_PushConfig = no_push, cfg_DeadLetterPolicy = None\<rparr>)),
     tr @ [CreateSubscription p (hd (strings_Split s CHR ''+''))
          \<lparr>cfg_Topic = tp, cfg_PushConfig = no_push, cfg_DeadLetterPolicy = None\<rparr>])"
  using assms
  by (simp add: create_subscription_def invoke_def Let_def split: option.splits)

lemma create_subscription_push:
  assumes "length (strings_Split s CHR ''+'') > 1"
    and "\<not> (length (strings_Split s CHR ''+'') = 3 \<and> strings_Split s CHR ''+'' ! 2 = ''dlq'')"
  shows "\<exists>c f. create_subscription b p t tp s tr = (map_option f (b tr c), tr @ [c])
            \<and> is_creation c \<and> (\<forall>err. cause (f err) = Some err)"
proof -
  let ?ep = "strings_Replace (strings_Split s CHR ''+'' ! 1) CHR ''|'' CHR '':'' 1"
  let ?sid = "hd (strings_Split s CHR ''+'')"
  let ?c = "CreateSubscription p ?sid
          \<lparr>cfg_Topic = tp, cfg_PushConfig = \<lparr>Endpoint = ''http://'' @ ?ep\<rparr>,
           cfg_DeadLetterPolicy = None\<rparr>"
  from assms have "create_subscription b p t tp s tr =
      (map_option (PushSubscriptionError ?sid t p ?ep) (b tr ?c), tr @ [?c])"
    by (simp add: create_subscription_def invoke_def Let_def split: option.splits)
  then show ?thesis by force
qed

lemma create_subscription_dlq:
  assumes "length (strings_Split s CHR ''+'') = 3" and "strings_Split s CHR ''+'' ! 2 = ''dlq''"
  shows "\<exists>c1 c2 c3 f1 f2 f3.
     create_subscription b p t tp s tr =
       (case b tr c1 of
          Some err \<Rightarrow> (Some (f1 err), tr @ [c1])
        | None \<Rightarrow>
           (case b (tr @ [c1]) c2 of
              Some err \<Rightarrow> (Some (f2 err), tr @ [c1, c2])
            | None \<Rightarrow> (map_option f3 (b (tr @ [c1, c2]) c3), tr @ [c1, c2, c3])))
     \<and> is_creation c1 \<and> is_creation c2 \<and> is_creation c3
     \<and> (\<forall>err. cause (f1 err) = Some err \<and> cause (f2 err) = Some err \<and> cause (f3 err) = Some err)"
proof -
  let ?ep = "strings_Replace (strings_Split s CHR ''+'' ! 1) CHR ''|'' CHR '':'' 1"
  let ?sid = "hd (strings_Split s CHR ''+'')"
  let ?c1 = "CreateTopic p (t @ ''-dlq'')"
  let ?c2 = "CreateSubscription p (?sid @ ''-dlq'')
           \<lparr>cfg_Topic = Topic p (t @ ''-dlq''),
            cfg_PushConfig = \<lparr>Endpoint = ''http://'' @ ?ep @ ''/dead''\<rparr>,
            cfg_DeadLetterPolicy = None\<rparr>"
  let ?c3 = "CreateSubscription p ?sid
           \<lparr>cfg_Topic = tp,
            cfg_PushConfig = \<lparr>Endpoint = ''http://'' @ ?ep\<rparr>,
            cfg_DeadLetterPolicy =
              Some \<lparr>DeadLetterTopic = topic_String (Topic p (t @ ''-dlq'')),
                    MaxDeliveryAttempts = 5\<rparr>\<rparr>"
  from assms have eq: "create_subscription b p t tp s tr =
       (case b tr ?c1 of
          Some err \<Rightarrow> (Some (DLQTopicError t p err), tr @ [?c1])
        | None \<Rightarrow>
           (case b (tr @ [?c1]) ?c2 of
              Some err \<Rightarrow> (Some (DLQSubscriptionError (t @ ''-dlq'') p err), tr @ [?c1, ?c2])
            | None \<Rightarrow> (map_option (PushSubscriptionError ?sid t p ?ep) (b (tr @ [?c1, ?c2]) ?c3),
                        tr @ [?c1, ?c2, ?c3])))"
    by (simp add: create_subscription_def invoke_def Let_def split: option.splits)
  show ?thesis
    apply (rule exI [of _ ?c1], rule exI [of _ ?c2], rule exI [of _ ?c3])
    apply (rule exI [of _ "DLQTopicError t p"])
    apply (rule exI [of _ "DLQSubscriptionError (t @ ''-dlq'') p"])
    apply (rule exI [of _ "PushSubscriptionError ?sid t p ?ep"])
    using eq apply simp
    done
qed

lemma first_error_stops_single:
  assumes "\<forall>err. cause (f err) = Some err"
  shows "first_error_stops b tr [c] (map_option f (b tr c))"
  using assms by (cases "b tr c") (simp_all add: first_error_stops_def)

lemma first_error_stops_Some:
  assumes "all_succeed b tr cs" and "b (tr @ cs) c = Some err" and "cause e = Some err"
  shows "first_error_stops b tr (cs @ [c]) (Some e)"
  using assms by (simp add: first_error_stops_def)

lemma create_subscription_calls:
  assumes "create_subscription b p t tp s tr = (r, tr')"
  shows "\<exists>cs. tr' = tr @ cs \<and> first_error_stops b tr cs r \<and> list_all is_creation cs"
proof -
  consider (plain) "\<not> length (strings_Split s CHR ''+'') > 1"
    | (dlq) "length (strings_Split s CHR ''+'') = 3" "strings_Split s CHR ''+'' ! 2 = ''dlq''"
    | (push) "length (strings_Split s CHR ''+'') > 1"
        "\<not> (length (strings_Split s CHR ''+'') = 3 \<and> strings_Split s CHR ''+'' ! 2 = ''dlq'')"
    by blast
  then show ?thesis
  proof cases
    case plain
    let ?c = "CreateSubscription p (hd (strings_Split s CHR ''+''))
          \<lparr>cfg_Topic = tp, cfg_PushConfig = no_push, cfg_DeadLetterPolicy = None\<rparr>"
    from create_subscription_plain [OF plain, of b p t tp tr] assms
    have "tr' = tr @ [?c]"
      and "r = map_option (SubscriptionError (hd (strings_Split s CHR ''+'')) t p) (b tr ?c)"
      by simp_all
    moreover have "first_error_stops b tr [?c]
        (map_option (SubscriptionError (hd (strings_Split s CHR ''+'')) t p) (b tr ?c))"
      by (rule first_error_stops_single) simp
    ultimately show ?thesis by auto
  next
    case push
    from create_subscription_push [OF push, of b p t tp tr] obtain c f where
      eq: "create_subscription b p t tp s tr = (map_option f (b tr c), tr @ [c])"
      and c: "is_creation c" and f: "\<forall>err. cause (f err) = Some err" by blast
    from eq assms have "tr' = tr @ [c]" "r = map_option f (b tr c)" by simp_all
    with first_error_stops_single [OF f, of b tr c] c show ?thesis by auto
  next
    case dlq
    from create_subscription_dlq [OF dlq, of b p t tp tr] obtain c1 c2 c3 f1 f2 f3 where
      eq: "create_subscription b p t tp s tr =
       (case b tr c1 of
          Some err \<Rightarrow> (Some (f1 err), tr @ [c1])
        | None \<Rightarrow>
           (case b (tr @ [c1]) c2 of
              Some err \<Rightarrow> (Some (f2 err), tr @ [c1, c2])
            | None \<Rightarrow> (map_option f3 (b (tr @ [c1, c2]) c3), tr @ [c1, c2, c3])))"
      and c: "is_creation c1" "is_creation c2" "is_creation c3"
      and f: "\<forall>err. cause (f1 err) = Some err" "\<forall>err. cause (f2 err) = Some err"
        "\<forall>err. cause (f3 err) = Some err"
      by blast
    show ?thesis
    proof (cases "b tr c1")
      case (Some err)
      with eq assms have "tr' = tr @ [c1]" "r = Some (f1 err)" by simp_all
      moreover from Some f have "first_error_stops b tr ([] @ [c1]) (Some (f1 err))"
        by (intro first_error_stops_Some) simp_all
      ultimately show ?thesis using c by auto
    next
      case n1: None
      show ?thesis
      proof (cases "b (tr @ [c1]) c2")
        case (Some err)
        with n1 eq assms have "tr' = tr @ [c1, c2]" "r = Some (f2 err)" by simp_all
        moreover from Some n1 f have "first_error_stops b tr ([c1] @ [c2]) (Some (f2 err))"
          by (intro first_error_stops_Some) simp_all
        ultimately show ?thesis using c by auto
      next
        case n2: None
        with n1 eq assms have r: "tr' = tr @ [c1, c2, c3]"
          "r = map_option f3 (b (tr @ [c1, c2]) c3)" by simp_all
        from n1 n2 have "all_succeed b tr [c1, c2]" by simp
        moreover have "first_error_stops b (tr @ [c1, c2]) [c3] (map_option f3 (b (tr @ [c1, c2]) c3))"
          using f(3) by (rule first_error_stops_single)
        ultimately have "first_error_stops b tr ([c1, c2] @ [c3]) (map_option f3 (b (tr @ [c1, c2]) c3))"
          by (rule first_error_stops_append)
        with r c show ?thesis by auto
      qed
    qed
  qed
qed

lemma create_subscriptions_calls:
  "create_subscriptions b p t tp subs tr = (r, tr') \<Longrightarrow>
     \<exists>cs. tr' = tr @ cs \<and> first_error_stops b tr cs r \<and> list_all is_creation cs"
proof (induction subs arbitrary: tr)
  case Nil
  then show ?case by (simp add: first_error_stops_def)
next
  case (Cons s subs)
  obtain r1 tr1 where s1: "create_subscription b p t tp s tr = (r1, tr1)"
    by (cases "create_subscription b p t tp s tr")
  from create_subscription_calls [OF s1] obtain cs where
    cs: "tr1 = tr @ cs" "first_error_stops b tr cs r1" "list_all is_creation cs" by blast
  show ?case
  proof (cases r1)
    case (Some e)
    with Cons.prems s1 have "r = Some e" "tr' = tr1" by simp_all
    with cs Some show ?thesis by blast
  next
    case None
    with Cons.prems s1 have "create_subscriptions b p t tp subs tr1 = (r, tr')" by simp
    from Cons.IH [OF this] obtain ds where
      ds: "tr' = tr1 @ ds" "first_error_stops b tr1 ds r" "list_all is_creation ds" by blast
    from cs None have "all_succeed b tr cs" by (simp add: first_error_stops_def)
    with ds cs have "first_error_stops b tr (cs @ ds) r"
      by (simp add: first_error_stops_append)
    with ds cs show ?thesis by auto
  qed
qed

lemma create_topics_calls:
  "create_topics b p topics tr = (r, tr') \<Longrightarrow>
     \<exists>cs. tr' = tr @ cs \<and> first_error_stops b tr cs r \<and> list_all is_creation cs"
proof (induction topics arbitrary: tr)
  case Nil
  then show ?case by (simp add: first_error_stops_def)
next
  case (Cons ts topics)
  obtain t subs where ts: "ts = (t, subs)" by (cases ts)
  let ?c = "CreateTopic p t"
  show ?case
  proof (cases "b tr ?c")
    case (Some err)
    with Cons.prems ts have "r = Some (TopicError t p err)" "tr' = tr @ [?c]"
      by (simp_all add: invoke_def)
    with Some show ?thesis by (simp add: first_error_stops_def)
  next
    case None
    obtain r1 tr1 where s1:
      "create_subscriptions b p t (Topic p t) subs (tr @ [?c]) = (r1, tr1)"
      by (cases "create_subscriptions b p t (Topic p t) subs (tr @ [?c])")
    from create_subscriptions_calls [OF s1] obtain cs where
      cs: "tr1 = (tr @ [?c]) @ cs" "first_error_stops b (tr @ [?c]) cs r1" "list_all is_creation cs"
      by blast
    from None have one: "all_succeed b tr [?c]" by simp
    show ?thesis
    proof (cases r1)
      case (Some e)
      with Cons.prems ts None s1 have "r = Some e" "tr' = tr1" by (simp_all add: invoke_def)
      moreover from one cs(2) have "first_error_stops b tr ([?c] @ cs) r1"
        by (rule first_error_stops_append)
      ultimately show ?thesis using cs Some by auto
    next
      case None
      with Cons.prems ts \<open>b tr ?c = None\<close> s1
      have "create_topics b p topics tr1 = (r, tr')" by (simp add: invoke_def)
      from Cons.IH [OF this] obtain ds where
        ds: "tr' = tr1 @ ds" "first_error_stops b tr1 ds r" "list_all is_creation ds" by blast
      from cs None one have ok: "all_succeed b tr ([?c] @ cs)"
        by (simp add: first_error_stops_def)
      from ds(2) cs(1) have "first_error_stops b (tr @ ([?c] @ cs)) ds r" by simp
      with ok have "first_error_stops b tr (([?c] @ cs) @ ds) r"
        by (rule first_error_stops_append)
      with ds cs show ?thesis by auto
    qed
  qed
qed

text \<open>
  C7. One pass of \<open>create\<close> over a project. When the client cannot be made, that is the
  only call and its error is returned. Otherwise the calls after \<open>NewClient\<close> are
  creation calls followed by one \<open>Close\<close>, which is the last call of the pass whether an
  error is returned or not: the session is released on an early return too. The creation
  calls and the result fit together as \<open>first_error_stops\<close> says: an error returned is
  the error of the first call that failed, that call is the last creation call (no
  subscription under a topic whose creation failed, no later topic), and without an
  error every call succeeded. The trace only grows: the calls made before the failure
  stay in it, and there is no call that deletes a resource.
\<close>

theorem C7_first_error_ends_pass:
  assumes "create b p topics tr = (r, tr')"
  shows "case b tr (NewClient p) of
           Some err \<Rightarrow> tr' = tr @ [NewClient p] \<and> r = Some (ClientError p err)
         | None \<Rightarrow>
            (\<exists>cs. tr' = tr @ [NewClient p] @ cs @ [Close p]
                \<and> list_all is_creation cs
                \<and> first_error_stops b (tr @ [NewClient p]) cs r)"
proof (cases "b tr (NewClient p)")
  case (Some err)
  with assms show ?thesis by (simp add: create_def invoke_def)
next
  case None
  obtain r1 tr1 where s1: "create_topics b p topics (tr @ [NewClient p]) = (r1, tr1)"
    by (cases "create_topics b p topics (tr @ [NewClient p])")
  with assms None have "r = r1" "tr' = tr1 @ [Close p]"
    by (simp_all add: create_def invoke_def)
  with create_topics_calls [OF s1] None show ?thesis by auto
qed

theorem C7_first_error_ends_pass_witness:
  "create (\<lambda>tr c. if c = CreateTopic ''p'' ''a'' then Some ''boom'' else None) ''p''
      [(''a'', [''s1'']), (''b'', [''s2''])] [] =
     (Some (TopicError ''a'' ''p'' ''boom''),
      [NewClient ''p'', CreateTopic ''p'' ''a'', Close ''p''])
   \<and> (\<exists>cs. [NewClient ''p'', CreateTopic ''p'' ''a'', Close ''p''] =
             [NewClient ''p''] @ cs @ [Close ''p'']
          \<and> list_all is_creation cs
          \<and> first_error_stops (\<lambda>tr c. if c = CreateTopic ''p'' ''a'' then Some ''boom'' else None)
               [NewClient ''p''] cs (Some (TopicError ''a'' ''p'' ''boom'')))"
proof -
  have run: "create (\<lambda>tr c. if c = CreateTopic ''p'' ''a'' then Some ''boom'' else None) ''p''
      [(''a'', [''s1'']), (''b'', [''s2''])] [] =
     (Some (TopicError ''a'' ''p'' ''boom''),
      [NewClient ''p'', CreateTopic ''p'' ''a'', Close ''p''])"
    by (simp add: create_def invoke_def)
  from C7_first_error_ends_pass [OF run] run show ?thesis by simp
qed

subsection \<open>The order of the subscriptions of a topic\<close>

lemma subscriptions_on_append:
  "subscriptions_on tp (cs @ ds) = subscriptions_on tp cs @ subscriptions_on tp ds"
  by (induction tp cs rule: subscriptions_on.induct) auto

lemma create_subscription_on:
  assumes "create_subscription b p t (Topic p t) s tr = (r, tr')"
  shows "\<exists>cs. tr' = tr @ cs
          \<and> prefix (subscriptions_on (Topic p t) cs) [hd (strings_Split s CHR ''+'')]
          \<and> (r = None \<longrightarrow> subscriptions_on (Topic p t) cs = [hd (strings_Split s CHR ''+'')])"
proof -
  consider (plain) "\<not> length (strings_Split s CHR ''+'') > 1"
    | (dlq) "length (strings_Split s CHR ''+'') = 3" "strings_Split s CHR ''+'' ! 2 = ''dlq''"
    | (push) "length (strings_Split s CHR ''+'') > 1"
        "\<not> (length (strings_Split s CHR ''+'') = 3 \<and> strings_Split s CHR ''+'' ! 2 = ''dlq'')"
    by blast
  then show ?thesis
  proof cases
    case plain
    with assms show ?thesis
      by (auto simp: create_subscription_def invoke_def Let_def split: option.splits)
  next
    case dlq
    with assms show ?thesis
      by (auto simp: create_subscription_def invoke_def Let_def split: option.splits)
  next
    case push
    with assms show ?thesis
      by (auto simp: create_subscription_def invoke_def Let_def split: option.splits)
  qed
qed

lemma create_subscriptions_on:
  "create_subscriptions b p t (Topic p t) tokens tr = (r, tr') \<Longrightarrow>
   \<exists>cs. tr' = tr @ cs
      \<and> prefix (subscriptions_on (Topic p t) cs) (map (\<lambda>s. hd (strings_Split s CHR ''+'')) tokens)
      \<and> (r = None \<longrightarrow>
           subscriptions_on (Topic p t) cs = map (\<lambda>s. hd (strings_Split s CHR ''+'')) tokens)"
proof (induction tokens arbitrary: tr)
  case Nil
  then show ?case by simp
next
  case (Cons s tokens)
  let ?id = "\<lambda>s. hd (strings_Split s CHR ''+'')"
  obtain r1 tr1 where s1: "create_subscription b p t (Topic p t) s tr = (r1, tr1)"
    by (cases "create_subscription b p t (Topic p t) s tr")
  from create_subscription_on [OF s1] obtain cs where
    cs: "tr1 = tr @ cs" "prefix (subscriptions_on (Topic p t) cs) [?id s]"
      "r1 = None \<longrightarrow> subscriptions_on (Topic p t) cs = [?id s]" by blast
  show ?case
  proof (cases r1)
    case (Some e)
    with Cons.prems s1 have "r = Some e" "tr' = tr1" by simp_all
    moreover from cs(2) have "prefix (subscriptions_on (Topic p t) cs) (?id s # map ?id tokens)"
      by (metis append_Cons append_Nil prefix_order.order_trans prefixI)
    ultimately show ?thesis using cs(1) by auto
  next
    case None
    with Cons.prems s1 have "create_subscriptions b p t (Topic p t) tokens tr1 = (r, tr')" by simp
    from Cons.IH [OF this] obtain ds where
      ds: "tr' = tr1 @ ds" "prefix (subscriptions_on (Topic p t) ds) (map ?id tokens)"
        "r = None \<longrightarrow> subscriptions_on (Topic p t) ds = map ?id tokens" by blast
    from cs None have one: "subscriptions_on (Topic p t) cs = [?id s]" by simp
    with ds cs(1) show ?thesis
      by (intro exI [of _ "cs @ ds"]) (simp add: subscriptions_on_append)
  qed
qed

lemma parse_topics_append:
  "parse_topics (xs @ ys) topics = parse_topics ys (parse_topics xs topics)"
  by (induction xs arbitrary: topics) (simp_all add: Let_def)

lemma parse_topics_other:
  "\<forall>g \<in> set parts. hd (strings_Split g CHR '':'') \<noteq> k \<Longrightarrow>
   map_of (parse_topics parts topics) k = map_of topics k"
  by (induction parts arbitrary: topics) (auto simp: Let_def update_conv')

lemma parse_topics_last:
  assumes "\<forall>g \<in> set later. hd (strings_Split g CHR '':'') \<noteq> hd (strings_Split field CHR '':'')"
  shows "map_of (parse_topics (earlier @ field # later) []) (hd (strings_Split field CHR '':''))
           = Some (tl (strings_Split field CHR '':''))"
  using assms by (simp add: parse_topics_append parse_topics_other Let_def update_conv')

subsection \<open>The loop over the environment variables\<close>

lemma main_loop_rounds:
  assumes "\<forall>j. i \<le> j \<and> j < i + n \<longrightarrow> env j \<noteq> []"
  shows "main_loop b order env i tr =
    (case rounds b order env i n tr of
       (Some e, tr') \<Rightarrow> Some \<lparr>status = 1, usage = False, reported = Some e, calls = tr'\<rparr>
     | (None, tr') \<Rightarrow> main_loop b order env (i + n) tr')"
  using assms
proof (induction n arbitrary: i tr)
  case 0
  then show ?case by simp
next
  case (Suc n)
  from Suc.prems have here: "env i \<noteq> []" by simp
  from Suc.prems have rest: "\<forall>j. Suc i \<le> j \<and> j < Suc i + n \<longrightarrow> env j \<noteq> []" by simp
  note IH = Suc.IH [OF rest]
  let ?parts = "strings_Split (env i) CHR '',''"
  show ?case
  proof (cases "length ?parts < 2")
    case True
    with here show ?thesis by (subst main_loop.simps) (simp add: Let_def)
  next
    case False
    obtain r tr1 where c: "create b (hd ?parts) (order i (parse_topics (tl ?parts) [])) tr = (r, tr1)"
      by (cases "create b (hd ?parts) (order i (parse_topics (tl ?parts) [])) tr")
    show ?thesis
    proof (cases r)
      case None
      with here False c IH [of tr1] show ?thesis
        by (subst main_loop.simps) (simp add: Let_def split: prod.splits option.splits)
    next
      case (Some e)
      with here False c show ?thesis
        by (subst main_loop.simps) (simp add: Let_def)
    qed
  qed
qed

lemma main_loop_end:
  "env i = [] \<Longrightarrow> main_loop b order env i tr =
     (if i = 1 then Some \<lparr>status = 1, usage = True, reported = None, calls = tr\<rparr>
      else Some \<lparr>status = 0, usage = False, reported = None, calls = tr\<rparr>)"
  by (subst main_loop.simps) simp

lemma main_rounds:
  assumes "\<forall>j \<in> {1..n}. env j \<noteq> []"
  shows "main b order env =
    (case rounds b order env 1 n [] of
       (Some e, tr') \<Rightarrow> Some \<lparr>status = 1, usage = False, reported = Some e, calls = tr'\<rparr>
     | (None, tr') \<Rightarrow> main_loop b order env (Suc n) tr')"
proof -
  from assms have "\<forall>j. 1 \<le> j \<and> j < 1 + n \<longrightarrow> env j \<noteq> []" by auto
  from main_loop_rounds [OF this, of b order "[]"] show ?thesis
    by (simp add: main_def split: prod.splits option.splits)
qed

text \<open>
  C8. The claim is that the batch ends with status 0 whenever the first empty variable
  has an index above 1. It does not when a project before it fails: with
  \<^verbatim>\<open>PUBSUB_PROJECT1\<close> and \<^verbatim>\<open>PUBSUB_PROJECT2\<close> set, \<^verbatim>\<open>PUBSUB_PROJECT3\<close> empty and a service that
  refuses the client of the first project, the process exits with status 1 after one
  call, and the second project is not processed.
\<close>

theorem C8_batch_counterexample:
  "(\<lambda>i::nat. if i = 1 then ''p1,t1'' else if i = 2 then ''p2,t2:s'' else []) 1 \<noteq> []
   \<and> (\<lambda>i::nat. if i = 1 then ''p1,t1'' else if i = 2 then ''p2,t2:s'' else []) 2 \<noteq> []
   \<and> (\<lambda>i::nat. if i = 1 then ''p1,t1'' else if i = 2 then ''p2,t2:s'' else []) 3 = []
   \<and> main (\<lambda>tr c. if c = NewClient ''p1'' then Some ''refused'' else None) (\<lambda>i ts. ts)
        (\<lambda>i::nat. if i = 1 then ''p1,t1'' else if i = 2 then ''p2,t2:s'' else []) =
     Some \<lparr>status = 1, usage = False, reported = Some (ClientError ''p1'' ''refused''),
           calls = [NewClient ''p1'']\<rparr>"
  by (simp add: main_def main_loop.simps create_def invoke_def create_subscription_def Let_def no_push_def)

text \<open>
  C8, as amended. The variables are read in increasing order from index 1. When
  \<^verbatim>\<open>PUBSUB_PROJECT1\<close> is empty or not set, the usage text is printed and the process exits
  with status 1 without any call on the service. When the variables 1 to \<open>n\<close> are set,
  variable \<open>n + 1\<close> is the first empty one, and the rounds of the projects 1 to \<open>n\<close> end
  without an error, the process ends with status 0, and the calls made are exactly the
  calls of those \<open>n\<close> rounds.
\<close>

theorem C8_batch_ends_at_first_empty:
  "(env 1 = [] \<longrightarrow>
      main b order env = Some \<lparr>status = 1, usage = True, reported = None, calls = []\<rparr>)
   \<and> ((\<forall>j \<in> {1..n}. env j \<noteq> []) \<and> 1 \<le> n \<and> env (Suc n) = []
        \<and> rounds b order env 1 n [] = (None, tr') \<longrightarrow>
      main b order env = Some \<lparr>status = 0, usage = False, reported = None, calls = tr'\<rparr>)"
proof (intro conjI impI)
  assume "env 1 = []"
  then show "main b order env = Some \<lparr>status = 1, usage = True, reported = None, calls = []\<rparr>"
    by (simp add: main_def main_loop_end)
next
  assume a: "(\<forall>j \<in> {1..n}. env j \<noteq> []) \<and> 1 \<le> n \<and> env (Suc n) = []
        \<and> rounds b order env 1 n [] = (None, tr')"
  then have "main b order env = main_loop b order env (Suc n) tr'"
    using main_rounds [of n env b order] by simp
  with a show "main b order env = Some \<lparr>status = 0, usage = False, reported = None, calls = tr'\<rparr>"
    by (simp add: main_loop_end)
qed

theorem C8_batch_ends_at_first_empty_witness:
  "main (\<lambda>tr c. None) (\<lambda>i ts. ts) (\<lambda>i. []) =
     Some \<lparr>status = 1, usage = True, reported = None, calls = []\<rparr>
   \<and> main (\<lambda>tr c. None) (\<lambda>i ts. ts) (\<lambda>i::nat. if i = 1 then ''p1,t1'' else if i = 2 then ''p2,t2:s'' else []) =
     Some \<lparr>status = 0, usage = False, reported = None,
       calls = [NewClient ''p1'', CreateTopic ''p1'' ''t1'', Close ''p1'', NewClient ''p2'',
         CreateTopic ''p2'' ''t2'',
         CreateSubscription ''p2'' ''s''
        \<lparr>cfg_Topic = Topic ''p2'' ''t2'', cfg_PushConfig = \<lparr>Endpoint = []\<rparr>,
         cfg_DeadLetterPolicy = None\<rparr>,
         Close ''p2'']\<rparr>"
proof -
  let ?env = "(\<lambda>i::nat. if i = 1 then ''p1,t1'' else if i = 2 then ''p2,t2:s'' else [])"
  let ?tr = "[NewClient ''p1'', CreateTopic ''p1'' ''t1'', Close ''p1'', NewClient ''p2'',
         CreateTopic ''p2'' ''t2'',
         CreateSubscription ''p2'' ''s''
        \<lparr>cfg_Topic = Topic ''p2'' ''t2'', cfg_PushConfig = \<lparr>Endpoint = []\<rparr>,
         cfg_DeadLetterPolicy = None\<rparr>,
         Close ''p2'']"
  have set: "\<forall>j \<in> {1..Suc (Suc 0)}. ?env j \<noteq> []" by auto
  have run: "rounds (\<lambda>tr c. None) (\<lambda>i ts. ts) ?env 1 (Suc (Suc 0)) [] = (None, ?tr)"
    by (simp add: create_def invoke_def create_subscription_def Let_def no_push_def)
  have stop: "?env (Suc (Suc (Suc 0))) = []" by simp
  from C8_batch_ends_at_first_empty [of "\<lambda>i. []" "(\<lambda>tr c. None)" "(\<lambda>i ts. ts)" 0 "[]", THEN conjunct1]
  have first: "main (\<lambda>tr c. None) (\<lambda>i ts. ts) (\<lambda>i. []) =
     Some \<lparr>status = 1, usage = True, reported = None, calls = []\<rparr>"
    by simp
  from C8_batch_ends_at_first_empty [of ?env "(\<lambda>tr c. None)" "(\<lambda>i ts. ts)" "Suc (Suc 0)" ?tr, THEN conjunct2]
    set run stop
  have "main (\<lambda>tr c. None) (\<lambda>i ts. ts) ?env =
     Some \<lparr>status = 0, usage = False, reported = None, calls = ?tr\<rparr>"
    by (simp only: simp_thms One_nat_def le_SucI le_refl)
  with first show ?thesis by (simp only: simp_thms)
qed

text \<open>
  C1. The claim is that the batch goes on with the next variable after a project
  failed. It does not: \<^verbatim>\<open>main\<close> passes the error of \<^verbatim>\<open>create\<close> to \<^verbatim>\<open>fatalf\<close>, which exits. With two
  projects set and a service that refuses the topic of the first, the process exits with
  status 1 and no call is made for the second project.
\<close>

theorem C1_batch_continues_counterexample:
  "main (\<lambda>tr c. if c = CreateTopic ''p1'' ''t1'' then Some ''boom'' else None) (\<lambda>i ts. ts)
        (\<lambda>i::nat. if i = 1 then ''p1,t1'' else if i = 2 then ''p2,t2:s'' else []) =
     Some \<lparr>status = 1, usage = False, reported = Some (TopicError ''t1'' ''p1'' ''boom''),
           calls = [NewClient ''p1'', CreateTopic ''p1'' ''t1'', Close ''p1'']\<rparr>"
  by (simp add: main_def main_loop.simps create_def invoke_def create_subscription_def Let_def no_push_def)

text \<open>
  C1, as amended. When the variables 1 to \<open>n + 1\<close> are set, the rounds of the projects 1
  to \<open>n\<close> end without an error, and the pass of project \<open>n + 1\<close> returns an error, then
  that error is reported and the process exits with status 1. The calls of the run are
  the calls up to the end of the failed pass: no project of a later variable is
  attempted, whatever the later variables hold.
\<close>

theorem C1_failure_ends_batch:
  assumes "\<forall>j \<in> {1..Suc n}. env j \<noteq> []"
    and "rounds b order env 1 n [] = (None, tr)"
    and "strings_Split (env (Suc n)) CHR '','' = p # t # ts"
    and "create b p (order (Suc n) (parse_topics (t # ts) [])) tr = (Some e, tr')"
  shows "main b order env = Some \<lparr>status = 1, usage = False, reported = Some e, calls = tr'\<rparr>"
proof -
  from assms(1) have "\<forall>j \<in> {1..n}. env j \<noteq> []" and here: "env (Suc n) \<noteq> []" by simp_all
  from main_rounds [OF this(1), of b order] assms(2)
  have "main b order env = main_loop b order env (Suc n) tr" by simp
  also from here assms(3,4)
  have "\<dots> = Some \<lparr>status = 1, usage = False, reported = Some e, calls = tr'\<rparr>"
    by (subst main_loop.simps) (simp del: parse_topics.simps)
  finally show ?thesis .
qed

theorem C1_failure_ends_batch_witness:
  "main (\<lambda>tr c. if c = CreateTopic ''p2'' ''t2'' then Some ''boom'' else None) (\<lambda>i ts. ts)
     (\<lambda>i. if i = 1 then ''p1,t1'' else if i = 2 then ''p2,t2:s'' else ''p3,t3'') =
   Some \<lparr>status = 1, usage = False, reported = Some (TopicError ''t2'' ''p2'' ''boom''),
     calls = [NewClient ''p1'', CreateTopic ''p1'' ''t1'', Close ''p1'',
              NewClient ''p2'', CreateTopic ''p2'' ''t2'', Close ''p2'']\<rparr>"
proof -
  let ?b = "\<lambda>tr c. if c = CreateTopic ''p2'' ''t2'' then Some ''boom'' else None"
  let ?env = "\<lambda>i::nat. if i = 1 then ''p1,t1'' else if i = 2 then ''p2,t2:s'' else ''p3,t3''"
  let ?tr = "[NewClient ''p1'', CreateTopic ''p1'' ''t1'', Close ''p1'']"
  have set: "\<forall>j \<in> {1..Suc (Suc 0)}. ?env j \<noteq> []" by auto
  have run: "rounds ?b (\<lambda>i ts. ts) ?env 1 (Suc 0) [] = (None, ?tr)"
    by (simp add: create_def invoke_def Let_def)
  have parts: "strings_Split (?env (Suc (Suc 0))) CHR '','' = ''p2'' # ''t2:s'' # []"
    by simp
  have pass: "create ?b ''p2'' ((\<lambda>i ts. ts) (Suc (Suc 0)) (parse_topics (''t2:s'' # []) [])) ?tr =
      (Some (TopicError ''t2'' ''p2'' ''boom''),
       [NewClient ''p1'', CreateTopic ''p1'' ''t1'', Close ''p1'',
        NewClient ''p2'', CreateTopic ''p2'' ''t2'', Close ''p2''])"
    by (simp add: create_def invoke_def Let_def)
  from C1_failure_ends_batch [OF set run parts pass] show ?thesis .
qed

text \<open>
  C5. The claim covers the empty value, whose split on \<open>,\<close> is the one empty field. The
  program does not report an error for it: an empty value is the end of the batch.
  With \<^verbatim>\<open>PUBSUB_PROJECT1\<close> set to \<^verbatim>\<open>p,t\<close> and \<^verbatim>\<open>PUBSUB_PROJECT2\<close> empty, the process ends with
  status 0 and reports nothing.
\<close>

theorem C5_empty_value_counterexample:
  "length (strings_Split [] CHR '','') < 2
   \<and> main (\<lambda>tr c. None) (\<lambda>i ts. ts) (\<lambda>i. if i = 1 then ''p,t'' else []) =
     Some \<lparr>status = 0, usage = False, reported = None,
           calls = [NewClient ''p'', CreateTopic ''p'' ''t'', Close ''p'']\<rparr>"
  by (simp add: main_def main_loop.simps create_def invoke_def create_subscription_def Let_def no_push_def)

text \<open>
  C5, as amended. A value that is not empty and whose split on \<open>,\<close> has fewer than two
  fields (a project identifier with no topic field), reached after \<open>n\<close> rounds without
  an error: the error of line 162 is reported for that variable, the process exits
  with status 1, and the calls of the run are the calls of the rounds before: none is
  made for that value. The empty value is not a case of this: it ends the batch.
\<close>

theorem C5_no_topic_field:
  assumes "\<forall>j \<in> {1..Suc n}. env j \<noteq> []"
    and "rounds b order env 1 n [] = (None, tr)"
    and "length (strings_Split (env (Suc n)) CHR '','') < 2"
  shows "main b order env =
    Some \<lparr>status = 1, usage = False, reported = Some (ExpectedTopic (Suc n)), calls = tr\<rparr>"
proof -
  from assms(1) have "\<forall>j \<in> {1..n}. env j \<noteq> []" and here: "env (Suc n) \<noteq> []" by simp_all
  from main_rounds [OF this(1), of b order] assms(2)
  have "main b order env = main_loop b order env (Suc n) tr" by simp
  also from here assms(3)
  have "\<dots> = Some \<lparr>status = 1, usage = False, reported = Some (ExpectedTopic (Suc n)), calls = tr\<rparr>"
    by (subst main_loop.simps) (simp add: Let_def)
  finally show ?thesis .
qed

theorem C5_no_topic_field_witness:
  "main (\<lambda>tr c. None) (\<lambda>i ts. ts) (\<lambda>i. if i = 1 then ''p,t'' else if i = 2 then ''proj1'' else []) =
   Some \<lparr>status = 1, usage = False, reported = Some (ExpectedTopic (Suc (Suc 0))),
     calls = [NewClient ''p'', CreateTopic ''p'' ''t'', Close ''p'']\<rparr>"
proof -
  let ?env = "\<lambda>i::nat. if i = 1 then ''p,t'' else if i = 2 then ''proj1'' else []"
  have set: "\<forall>j \<in> {1..Suc (Suc 0)}. ?env j \<noteq> []" by auto
  have run: "rounds (\<lambda>tr c. None) (\<lambda>i ts. ts) ?env 1 (Suc 0) [] =
      (None, [NewClient ''p'', CreateTopic ''p'' ''t'', Close ''p''])"
    by (simp add: create_def invoke_def Let_def)
  have few: "length (strings_Split (?env (Suc (Suc 0))) CHR '','') < 2"
    by simp
  from C5_no_topic_field [OF set run few] show ?thesis .
qed

subsection \<open>The order of the topics of a project\<close>

lemma parse_topics_keys:
  "fst ` set (parse_topics parts topics) =
     fst ` set topics \<union> (\<lambda>f. hd (strings_Split f CHR '':'')) ` set parts"
  by (induction parts arbitrary: topics) (auto simp: Let_def dom_update)

lemma parse_topics_distinct:
  "distinct (map fst topics) \<Longrightarrow> distinct (map fst (parse_topics parts topics))"
  by (induction parts arbitrary: topics) (simp_all add: Let_def distinct_update)

lemma create_topics_append:
  "create_topics b p (xs @ ys) tr =
     (case create_topics b p xs tr of
        (Some e, tr') \<Rightarrow> (Some e, tr')
      | (None, tr') \<Rightarrow> create_topics b p ys tr')"
  by (induction xs arbitrary: tr) (auto split: prod.splits option.splits)

lemma create_topics_first_call:
  "prefix (tr @ [CreateTopic p t]) (snd (create_topics b p ((t, subs) # later) tr))"
proof (cases "b tr (CreateTopic p t)")
  case (Some err)
  then show ?thesis by (simp add: invoke_def)
next
  case None
  let ?tr = "tr @ [CreateTopic p t]"
  obtain r1 tr1 where s1: "create_subscriptions b p t (Topic p t) subs ?tr = (r1, tr1)"
    by (cases "create_subscriptions b p t (Topic p t) subs ?tr")
  from create_subscriptions_calls [OF s1] obtain cs where cs: "tr1 = ?tr @ cs" by blast
  show ?thesis
  proof (cases r1)
    case (Some e)
    with None s1 cs show ?thesis by (simp add: invoke_def)
  next
    case n1: None
    obtain r2 tr2 where s2: "create_topics b p later tr1 = (r2, tr2)"
      by (cases "create_topics b p later tr1")
    from create_topics_calls [OF s2] obtain ds where "tr2 = tr1 @ ds" by blast
    with None n1 s1 s2 cs show ?thesis by (simp add: invoke_def)
  qed
qed

lemma parse_topics_entry:
  assumes "\<forall>g \<in> set after. hd (strings_Split g CHR '':'') \<noteq> hd (strings_Split field CHR '':'')"
  shows "((hd (strings_Split field CHR '':''), subs) \<in> set (parse_topics (before @ field # after) []))
     \<longleftrightarrow> subs = tl (strings_Split field CHR '':'')"
proof -
  have "distinct (map fst (parse_topics (before @ field # after) []))"
    by (rule parse_topics_distinct) simp
  then have "((hd (strings_Split field CHR '':''), subs) \<in> set (parse_topics (before @ field # after) []))
     \<longleftrightarrow> map_of (parse_topics (before @ field # after) []) (hd (strings_Split field CHR '':'')) = Some subs"
    by simp
  with parse_topics_last [OF assms, of before] show ?thesis by auto
qed

lemma create_topics_reaches:
  assumes "create_topics b p before tr = (None, tr1)"
    and "b tr1 (CreateTopic p t) = None"
    and "create_subscriptions b p t (Topic p t) subs (tr1 @ [CreateTopic p t]) = (r, tr2)"
  shows "prefix tr2 (snd (create_topics b p (before @ (t, subs) # after) tr))"
proof (cases r)
  case (Some e)
  with assms show ?thesis by (simp add: create_topics_append invoke_def)
next
  case None
  obtain r3 tr3 where s3: "create_topics b p after tr2 = (r3, tr3)"
    by (cases "create_topics b p after tr2")
  from create_topics_calls [OF s3] obtain ds where "tr3 = tr2 @ ds" by blast
  with None assms s3 show ?thesis by (simp add: create_topics_append invoke_def)
qed

text \<open>
  C4. The claim is that the topics are created in the order of the topic fields. The
  program keeps the topics in a Go map and creates them in the order in which \<^verbatim>\<open>range\<close>
  visits the map, which the language leaves open. For the value \<^verbatim>\<open>p,a,b\<close>, visiting the
  two entries of the map in the order \<open>b\<close>, \<open>a\<close> is one of the runs of the program, and
  in it the topic \<open>b\<close> is created before the topic \<open>a\<close>. The map also has one entry for
  each topic identifier, which a later field of the same identifier overwrites: for
  \<^verbatim>\<open>p,a:s1,b,a:s2\<close> there are three topic fields, two topics are created, and the topic
  \<open>a\<close> gets the subscription \<open>s2\<close> of its last field.
\<close>

theorem C4_insertion_order_counterexample:
  "main (\<lambda>tr c. None) (\<lambda>i. rev) (\<lambda>i. if i = 1 then ''p,a,b'' else []) =
     Some \<lparr>status = 0, usage = False, reported = None,
           calls = [NewClient ''p'', CreateTopic ''p'' ''b'', CreateTopic ''p'' ''a'', Close ''p'']\<rparr>
   \<and> mset (rev (parse_topics [''a'', ''b''] [])) = mset (parse_topics [''a'', ''b''] [])
   \<and> main (\<lambda>tr c. None) (\<lambda>i ts. ts) (\<lambda>i. if i = 1 then ''p,a:s1,b,a:s2'' else []) =
     Some \<lparr>status = 0, usage = False, reported = None,
           calls = [NewClient ''p'', CreateTopic ''p'' ''a'',
                    CreateSubscription ''p'' ''s2''
                      \<lparr>cfg_Topic = Topic ''p'' ''a'', cfg_PushConfig = \<lparr>Endpoint = []\<rparr>,
                       cfg_DeadLetterPolicy = None\<rparr>,
                    CreateTopic ''p'' ''b'', Close ''p'']\<rparr>"
  by (simp add: main_def main_loop.simps create_def invoke_def create_subscription_def
        no_push_def Let_def)

text \<open>
  C4, as amended. Let \<open>visited\<close> be the entries of the map of a project in the order in
  which \<^verbatim>\<open>range\<close> visits them: any arrangement of the entries. The topic identifiers
  visited are the topic identifiers of the topic fields, each one once. The entry of an
  identifier holds the subscription tokens of the last field with that identifier (as
  the identifiers visited are distinct, it is the only entry of that identifier). The
  topics are created in the visiting order: when the pass over the entries before an
  entry \<open>(t, subs)\<close> ends without an error, the next call of the pass creates the topic
  \<open>t\<close>.
\<close>

theorem C4_topics_in_visiting_order:
  assumes "mset visited = mset (parse_topics parts [])"
  shows "distinct (map fst visited)
    \<and> set (map fst visited) = (\<lambda>f. hd (strings_Split f CHR '':'')) ` set parts
    \<and> (parts = before @ field # after
         \<and> (\<forall>g \<in> set after. hd (strings_Split g CHR '':'') \<noteq> hd (strings_Split field CHR '':''))
        \<longrightarrow> (hd (strings_Split field CHR '':''), tl (strings_Split field CHR '':'')) \<in> set visited)
    \<and> (visited = earlier @ (t, subs) # later \<and> create_topics b p earlier tr = (None, tr1)
        \<longrightarrow> prefix (tr1 @ [CreateTopic p t]) (snd (create_topics b p visited tr)))"
proof (intro conjI impI)
  from assms have "mset (map fst visited) = mset (map fst (parse_topics parts []))"
    by simp
  then have "distinct (map fst visited) \<longleftrightarrow> distinct (map fst (parse_topics parts []))"
    by (rule mset_eq_imp_distinct_iff)
  then show "distinct (map fst visited)" by (simp add: parse_topics_distinct)
  from assms have same: "set visited = set (parse_topics parts [])" by (rule mset_eq_setD)
  then show "set (map fst visited) = (\<lambda>f. hd (strings_Split f CHR '':'')) ` set parts"
    by (simp add: parse_topics_keys)
  {
    assume a: "parts = before @ field # after
         \<and> (\<forall>g \<in> set after. hd (strings_Split g CHR '':'') \<noteq> hd (strings_Split field CHR '':''))"
    then have "(hd (strings_Split field CHR '':''), tl (strings_Split field CHR '':''))
        \<in> set (parse_topics (before @ field # after) [])"
      by (simp add: parse_topics_entry)
    with a same
    show "(hd (strings_Split field CHR '':''), tl (strings_Split field CHR '':'')) \<in> set visited"
      by simp
  }
  {
    assume "visited = earlier @ (t, subs) # later \<and> create_topics b p earlier tr = (None, tr1)"
    then have "create_topics b p visited tr = create_topics b p ((t, subs) # later) tr1"
      by (simp add: create_topics_append)
    then show "prefix (tr1 @ [CreateTopic p t]) (snd (create_topics b p visited tr))"
      by (simp only: create_topics_first_call)
  }
qed

theorem C4_topics_in_visiting_order_witness:
  "mset [(''b'', [''s'']), (''a'', [''s2''])] = mset (parse_topics [''a:s1'', ''b:s'', ''a:s2''] [])
   \<and> distinct (map fst [(''b'', [''s'']), (''a'', [''s2''])])
   \<and> set (map fst [(''b'', [''s'']), (''a'', [''s2''])]) =
       (\<lambda>f. hd (strings_Split f CHR '':'')) ` set [''a:s1'', ''b:s'', ''a:s2'']
   \<and> (hd (strings_Split ''a:s2'' CHR '':''), tl (strings_Split ''a:s2'' CHR '':''))
       \<in> set [(''b'', [''s'']), (''a'', [''s2''])]
   \<and> prefix ([CreateTopic ''p'' ''b'',
              CreateSubscription ''p'' ''s''
                \<lparr>cfg_Topic = Topic ''p'' ''b'', cfg_PushConfig = \<lparr>Endpoint = []\<rparr>,
                 cfg_DeadLetterPolicy = None\<rparr>] @ [CreateTopic ''p'' ''a''])
       (snd (create_topics (\<lambda>tr c. None) ''p'' [(''b'', [''s'']), (''a'', [''s2''])] []))"
proof -
  let ?visited = "[(''b'', [''s'']), (''a'', [''s2''])]"
  let ?tr1 = "[CreateTopic ''p'' ''b'',
              CreateSubscription ''p'' ''s''
                \<lparr>cfg_Topic = Topic ''p'' ''b'', cfg_PushConfig = \<lparr>Endpoint = []\<rparr>,
                 cfg_DeadLetterPolicy = None\<rparr>]"
  have perm: "mset ?visited = mset (parse_topics [''a:s1'', ''b:s'', ''a:s2''] [])"
    by simp
  have last: "[''a:s1'', ''b:s'', ''a:s2''] = [''a:s1'', ''b:s''] @ ''a:s2'' # []
      \<and> (\<forall>g \<in> set []. hd (strings_Split g CHR '':'') \<noteq> hd (strings_Split ''a:s2'' CHR '':''))"
    by simp
  have reach: "?visited = [(''b'', [''s''])] @ (''a'', [''s2'']) # []
      \<and> create_topics (\<lambda>tr c. None) ''p'' [(''b'', [''s''])] [] = (None, ?tr1)"
    by (simp add: invoke_def create_subscription_def no_push_def)
  note inst = C4_topics_in_visiting_order [OF perm,
      where before = "[''a:s1'', ''b:s'']" and field = "''a:s2''" and after = "[]"
        and earlier = "[(''b'', [''s''])]" and t = "''a''" and subs = "[''s2'']" and later = "[]"
        and b = "\<lambda>tr c. None" and p = "''p''" and tr = "[]" and ?tr1.0 = ?tr1]
  note a = inst [THEN conjunct1]
  note b = inst [THEN conjunct2, THEN conjunct1]
  note c = inst [THEN conjunct2, THEN conjunct2, THEN conjunct1, THEN mp, OF last]
  note d = inst [THEN conjunct2, THEN conjunct2, THEN conjunct2, THEN mp, OF reach]
  from perm a b c d show ?thesis by (intro conjI)
qed

subsection \<open>The subscriptions of a topic field\<close>

text \<open>
  C9. The claim is about every topic field. A topic field whose identifier comes again
  in a later field is overwritten in the map, and its subscriptions are not created at
  all: for the value \<^verbatim>\<open>p,a:s1,a:s2\<close> the map has the one entry of \<open>a\<close> with the token
  \<open>s2\<close>, and the subscription \<open>s1\<close> of the first topic field is never created.
\<close>

theorem C9_every_topic_field_counterexample:
  "main (\<lambda>tr c. None) (\<lambda>i ts. ts) (\<lambda>i. if i = 1 then ''p,a:s1,a:s2'' else []) =
     Some \<lparr>status = 0, usage = False, reported = None,
           calls = [NewClient ''p'', CreateTopic ''p'' ''a'',
                    CreateSubscription ''p'' ''s2''
                      \<lparr>cfg_Topic = Topic ''p'' ''a'', cfg_PushConfig = \<lparr>Endpoint = []\<rparr>,
                       cfg_DeadLetterPolicy = None\<rparr>,
                    Close ''p'']\<rparr>"
  by (simp add: main_def main_loop.simps create_def invoke_def create_subscription_def
        no_push_def Let_def)

text \<open>
  C9, as amended. A topic field with no later field of the same topic identifier \<open>t\<close>,
  and the entries of the map in any visiting order. The map has exactly one entry of
  \<open>t\<close>, and it holds the segments after the topic identifier, in their order (the
  tokens of an earlier field of the same identifier are gone). When the pass reaches
  that entry and the topic is created, the calls of the loop over its subscriptions are
  calls of the pass, and they create the subscriptions on the topic front to back: the
  identifiers of the subscriptions created on the topic are a prefix of the identifiers
  of the tokens, and all of them, in the order of the tokens, when no error is
  returned.
\<close>

theorem C9_subscriptions_in_token_order:
  assumes "\<forall>g \<in> set later. hd (strings_Split g CHR '':'') \<noteq> hd (strings_Split field CHR '':'')"
    and "mset visited = mset (parse_topics (earlier @ field # later) [])"
    and "t = hd (strings_Split field CHR '':'')"
  shows "((t, subs) \<in> set visited \<longleftrightarrow> subs = tl (strings_Split field CHR '':''))
    \<and> (visited = before @ (t, subs) # after
         \<and> create_topics b p before tr = (None, tr1)
         \<and> b tr1 (CreateTopic p t) = None
         \<and> create_subscriptions b p t (Topic p t) subs (tr1 @ [CreateTopic p t]) = (r, tr2)
        \<longrightarrow> prefix tr2 (snd (create_topics b p visited tr))
          \<and> (\<exists>cs. tr2 = tr1 @ CreateTopic p t # cs
                \<and> prefix (subscriptions_on (Topic p t) cs)
                     (map (\<lambda>s. hd (strings_Split s CHR ''+'')) (tl (strings_Split field CHR '':'')))
                \<and> (r = None \<longrightarrow> subscriptions_on (Topic p t) cs =
                     map (\<lambda>s. hd (strings_Split s CHR ''+'')) (tl (strings_Split field CHR '':'')))))"
proof (intro conjI impI)
  from assms(2) have same: "set visited = set (parse_topics (earlier @ field # later) [])"
    by (rule mset_eq_setD)
  with parse_topics_entry [OF assms(1), of subs earlier] assms(3)
  show entry: "(t, subs) \<in> set visited \<longleftrightarrow> subs = tl (strings_Split field CHR '':'')"
    by simp
  assume a: "visited = before @ (t, subs) # after
         \<and> create_topics b p before tr = (None, tr1)
         \<and> b tr1 (CreateTopic p t) = None
         \<and> create_subscriptions b p t (Topic p t) subs (tr1 @ [CreateTopic p t]) = (r, tr2)"
  then have "(t, subs) \<in> set visited" by simp
  with entry have subs: "subs = tl (strings_Split field CHR '':'')" by simp
  from a create_topics_reaches [of b p before tr tr1 t subs r tr2 after]
  show "prefix tr2 (snd (create_topics b p visited tr))" by simp
  from a have "create_subscriptions b p t (Topic p t) subs (tr1 @ [CreateTopic p t]) = (r, tr2)"
    by simp
  from create_subscriptions_on [OF this] subs
  show "\<exists>cs. tr2 = tr1 @ CreateTopic p t # cs
                \<and> prefix (subscriptions_on (Topic p t) cs)
                     (map (\<lambda>s. hd (strings_Split s CHR ''+'')) (tl (strings_Split field CHR '':'')))
                \<and> (r = None \<longrightarrow> subscriptions_on (Topic p t) cs =
                     map (\<lambda>s. hd (strings_Split s CHR ''+'')) (tl (strings_Split field CHR '':'')))"
    by auto
qed

theorem C9_subscriptions_in_token_order_witness:
  "(''a'', [''s2'', ''s3+h'']) \<in> set (parse_topics [''a:s1'', ''b'', ''a:s2:s3+h''] [])
   \<and> (''a'', [''s1'']) \<notin> set (parse_topics [''a:s1'', ''b'', ''a:s2:s3+h''] [])
   \<and> prefix [CreateTopic ''p'' ''a'',
        CreateSubscription ''p'' ''s2''
          \<lparr>cfg_Topic = Topic ''p'' ''a'', cfg_PushConfig = \<lparr>Endpoint = []\<rparr>,
           cfg_DeadLetterPolicy = None\<rparr>,
        CreateSubscription ''p'' ''s3''
          \<lparr>cfg_Topic = Topic ''p'' ''a'', cfg_PushConfig = \<lparr>Endpoint = ''http://h''\<rparr>,
           cfg_DeadLetterPolicy = None\<rparr>]
       (snd (create_topics (\<lambda>tr c. None) ''p'' (parse_topics [''a:s1'', ''b'', ''a:s2:s3+h''] []) []))
   \<and> (\<exists>cs. [CreateTopic ''p'' ''a'',
        CreateSubscription ''p'' ''s2''
          \<lparr>cfg_Topic = Topic ''p'' ''a'', cfg_PushConfig = \<lparr>Endpoint = []\<rparr>,
           cfg_DeadLetterPolicy = None\<rparr>,
        CreateSubscription ''p'' ''s3''
          \<lparr>cfg_Topic = Topic ''p'' ''a'', cfg_PushConfig = \<lparr>Endpoint = ''http://h''\<rparr>,
           cfg_DeadLetterPolicy = None\<rparr>] = CreateTopic ''p'' ''a'' # cs
         \<and> subscriptions_on (Topic ''p'' ''a'') cs = [''s2'', ''s3''])"
proof -
  let ?parts = "[''a:s1'', ''b'', ''a:s2:s3+h'']"
  let ?visited = "parse_topics ?parts []"
  let ?tr2 = "[CreateTopic ''p'' ''a'',
        CreateSubscription ''p'' ''s2''
          \<lparr>cfg_Topic = Topic ''p'' ''a'', cfg_PushConfig = \<lparr>Endpoint = []\<rparr>,
           cfg_DeadLetterPolicy = None\<rparr>,
        CreateSubscription ''p'' ''s3''
          \<lparr>cfg_Topic = Topic ''p'' ''a'', cfg_PushConfig = \<lparr>Endpoint = ''http://h''\<rparr>,
           cfg_DeadLetterPolicy = None\<rparr>]"
  have later: "\<forall>g \<in> set []. hd (strings_Split g CHR '':'')
      \<noteq> hd (strings_Split ''a:s2:s3+h'' CHR '':'')"
    by simp
  have perm: "mset ?visited = mset (parse_topics ([''a:s1'', ''b''] @ ''a:s2:s3+h'' # []) [])"
    by simp
  have name: "''a'' = hd (strings_Split ''a:s2:s3+h'' CHR '':'')"
    by simp
  have tokens: "tl (strings_Split ''a:s2:s3+h'' CHR '':'') = [''s2'', ''s3+h'']"
    by simp
  have ids: "map (\<lambda>s. hd (strings_Split s CHR ''+'')) [''s2'', ''s3+h''] = [''s2'', ''s3'']"
    by simp
  have reach: "?visited = [] @ (''a'', [''s2'', ''s3+h'']) # [(''b'', [])]
      \<and> create_topics (\<lambda>tr c. None) ''p'' [] [] = (None, [])
      \<and> (\<lambda>tr c. None) [] (CreateTopic ''p'' ''a'') = None
      \<and> create_subscriptions (\<lambda>tr c. None) ''p'' ''a'' (Topic ''p'' ''a'') [''s2'', ''s3+h'']
            ([] @ [CreateTopic ''p'' ''a'']) = (None, ?tr2)"
    by (simp add: invoke_def create_subscription_def no_push_def strings_Replace_0)
  note inst1 = C9_subscriptions_in_token_order [OF later perm name,
      where subs = "[''s1'']" and before = "[]" and after = "[]" and b = "\<lambda>tr c. None"
        and p = "''p''" and tr = "[]" and ?tr1.0 = "[]" and r = None and ?tr2.0 = "[]",
      THEN conjunct1]
  note inst2 = C9_subscriptions_in_token_order [OF later perm name,
      where subs = "[''s2'', ''s3+h'']" and before = "[]" and after = "[(''b'', [])]"
        and b = "\<lambda>tr c. None" and p = "''p''" and tr = "[]" and ?tr1.0 = "[]" and r = None
        and ?tr2.0 = ?tr2]
  from inst2 [THEN conjunct1] tokens have a: "(''a'', [''s2'', ''s3+h'']) \<in> set ?visited"
    by (simp only: simp_thms)
  from inst1 tokens have b: "(''a'', [''s1'']) \<notin> set ?visited"
    by (simp only: list.inject simp_thms) simp
  note both = inst2 [THEN conjunct2, THEN mp, OF reach]
  note c = both [THEN conjunct1]
  from both [THEN conjunct2]
  obtain cs where "?tr2 = [] @ CreateTopic ''p'' ''a'' # cs"
    and "subscriptions_on (Topic ''p'' ''a'') cs =
       map (\<lambda>s. hd (strings_Split s CHR ''+'')) (tl (strings_Split ''a:s2:s3+h'' CHR '':''))"
    by blast
  with tokens ids have d: "\<exists>cs. ?tr2 = CreateTopic ''p'' ''a'' # cs
         \<and> subscriptions_on (Topic ''p'' ''a'') cs = [''s2'', ''s3'']"
    by (simp only: append_Nil) blast
  from a b c d show ?thesis by (intro conjI)
qed

end
